theory Spec2Isabelle
  imports Main "HOL-Library.Char_ord" "HOL-Library.List_Lexorder"
begin

section \<open>Data model of \<^verbatim>\<open>src/model/deleted-items.ts\<close>\<close>

text \<open>
  \<^verbatim>\<open>DeletedItem = DeletedBookmark | DeletedFolder\<close>. The source tells the two apart
  with \<^verbatim>\<open>'children' in item\<close>; here that test is the constructor. The optional
  \<^verbatim>\<open>favIconUrl\<close> is an option.
\<close>

datatype DeletedItem =
    DeletedBookmark string string "string option"
  | DeletedFolder string "DeletedItem list"

fun title :: "DeletedItem \<Rightarrow> string" where
  "title (DeletedBookmark t u f) = t"
| "title (DeletedFolder t cs) = t"

fun has_children :: "DeletedItem \<Rightarrow> bool" where
  "has_children (DeletedBookmark t u f) = False"
| "has_children (DeletedFolder t cs) = True"

fun children :: "DeletedItem \<Rightarrow> DeletedItem list" where
  "children (DeletedBookmark t u f) = []"
| "children (DeletedFolder t cs) = cs"

text \<open>\<^verbatim>\<open>SourceValue\<close>: the persisted form, with the timestamp still a string.\<close>

record SourceValue =
  sv_deleted_at :: string
  sv_item :: DeletedItem

text \<open>\<^verbatim>\<open>Entry<string, SourceValue>\<close> of the key-value store: \<^verbatim>\<open>{key, value}\<close>.\<close>

record Entry =
  e_key :: string
  e_value :: SourceValue

text \<open>
  A JavaScript \<^verbatim>\<open>Date\<close> built by \<^verbatim>\<open>new Date(s)\<close>. The parser is the platform's, so
  the value is kept as the constructor applied to its argument.
\<close>

datatype Date = New_Date string

text \<open>\<^verbatim>\<open>Deletion\<close>: the in-memory form.\<close>

record Deletion =
  key :: string
  deleted_at :: Date
  item :: DeletedItem

text \<open>
  The object of class \<^verbatim>\<open>Model\<close>. Deletion objects are shared by reference between
  \<^verbatim>\<open>state.entries\<close> and \<^verbatim>\<open>_entry_cache\<close>, so they live in an explicit store:
  \<open>objects\<close> holds every Deletion object ever allocated, a reference is an index
  into it, \<open>entries\<close> is the array of references and \<open>entry_cache\<close> the
  \<^verbatim>\<open>Map<string, Deletion>\<close>. The fields \<open>ready\<close> and \<open>entries\<close> are those of
  \<^verbatim>\<open>state\<close>. \<open>hydration\<close> is the control state of the asynchronous block the
  constructor starts: still iterating \<^verbatim>\<open>kvs.list()\<close>, finished, or stopped by an
  error that went to \<^verbatim>\<open>console.error\<close>.
\<close>

datatype hydration_status = Running | Finished | Failed

record Model =
  ready :: bool
  entries :: "nat list"
  entry_cache :: "string \<rightharpoonup> nat"
  objects :: "Deletion list"
  hydration :: hydration_status

text \<open>What an observer of \<^verbatim>\<open>state.entries\<close> reads: the objects behind the references.\<close>

definition entries_view :: "Model \<Rightarrow> Deletion list" where
  "entries_view m = map (\<lambda>a. objects m ! a) (entries m)"

definition entry_keys :: "Model \<Rightarrow> string set" where
  "entry_keys m = set (map key (entries_view m))"

text \<open>The state right after the field initialisers of the class have run.\<close>

definition Model_init :: Model where
  "Model_init =
     \<lparr>ready = False, entries = [], entry_cache = Map.empty, objects = [],
      hydration = Running\<rparr>"

section \<open>The constructor's closures\<close>

text \<open>
  \<^verbatim>\<open>src2state\<close>. \<^verbatim>\<open>friendlyFolderName\<close> is imported from \<^verbatim>\<open>../stash\<close>, which is not
  among the sources: it is the parameter \<open>friendlyFolderName\<close> of every definition
  that reaches it.
\<close>

definition src2state :: "(string \<Rightarrow> string) \<Rightarrow> Entry \<Rightarrow> Deletion" where
  "src2state friendlyFolderName e =
     \<lparr>key = e_key e,
      deleted_at = New_Date (sv_deleted_at (e_value e)),
      item = (if has_children (sv_item (e_value e))
              then DeletedFolder (friendlyFolderName (title (sv_item (e_value e))))
                     (children (sv_item (e_value e)))
              else sv_item (e_value e))\<rparr>"

text \<open>One iteration of the loop in the \<^verbatim>\<open>kvs.onSet\<close> listener.\<close>

definition onSet_record :: "(string \<Rightarrow> string) \<Rightarrow> Entry \<Rightarrow> Model \<Rightarrow> Model" where
  "onSet_record friendlyFolderName r m =
     (case entry_cache m (e_key r) of
        Some cached \<Rightarrow>
          m\<lparr>objects := (objects m)[cached := (objects m ! cached)
               \<lparr>deleted_at := New_Date (sv_deleted_at (e_value r)),
                item := sv_item (e_value r)\<rparr>]\<rparr>
      | None \<Rightarrow>
          m\<lparr>objects := objects m @ [src2state friendlyFolderName r],
            entry_cache := (entry_cache m)(e_key r \<mapsto> length (objects m)),
            entries := entries m @ [length (objects m)]\<rparr>)"

text \<open>The \<^verbatim>\<open>kvs.onSet\<close> listener: the records of the batch in array order.\<close>

definition onSet :: "(string \<Rightarrow> string) \<Rightarrow> Entry list \<Rightarrow> Model \<Rightarrow> Model" where
  "onSet friendlyFolderName records m = fold (onSet_record friendlyFolderName) records m"

text \<open>
  The \<^verbatim>\<open>kvs.onDelete\<close> listener: every key leaves the cache, then \<^verbatim>\<open>state.entries\<close> is
  replaced by its filter.
\<close>

definition onDelete :: "string list \<Rightarrow> Model \<Rightarrow> Model" where
  "onDelete keys m =
     m\<lparr>entry_cache := fold (\<lambda>k c. c(k := None)) keys (entry_cache m),
       entries := filter (\<lambda>a. key (objects m ! a) \<notin> set keys) (entries m)\<rparr>"

text \<open>
  One iteration of \<^verbatim>\<open>for await (const record of kvs.list())\<close>: the entry is pushed
  and cached without a look at the cache.
\<close>

definition hydrate_record :: "(string \<Rightarrow> string) \<Rightarrow> Entry \<Rightarrow> Model \<Rightarrow> Model" where
  "hydrate_record friendlyFolderName record m =
     m\<lparr>objects := objects m @ [src2state friendlyFolderName record],
       entries := entries m @ [length (objects m)],
       entry_cache := (entry_cache m)(e_key record \<mapsto> length (objects m))\<rparr>"

section \<open>The mutation API\<close>

text \<open>An error raised by the store (a rejected promise).\<close>

datatype error = Store_error string

text \<open>
  The reading of the clock by \<^verbatim>\<open>new Date()\<close>, as its UTC fields, and
  \<^verbatim>\<open>Date.prototype.toISOString\<close>: \<^verbatim>\<open>YYYY-MM-DDTHH:mm:ss.sssZ\<close> for the years 0 to 9999,
  and the expanded form with a sign and six digits outside them.
\<close>

record UTC =
  year :: int
  month :: nat
  day :: nat
  hours :: nat
  minutes :: nat
  seconds :: nat
  milliseconds :: nat

definition digit :: "nat \<Rightarrow> char" where
  "digit n = char_of (48 + n mod 10)"

primrec pad :: "nat \<Rightarrow> nat \<Rightarrow> string" where
  "pad 0 n = []"
| "pad (Suc w) n = pad w (n div 10) @ [digit n]"

definition year_string :: "int \<Rightarrow> string" where
  "year_string y =
     (if 0 \<le> y \<and> y \<le> 9999 then pad 4 (nat y)
      else if y < 0 then CHR ''-'' # pad 6 (nat (- y))
      else CHR ''+'' # pad 6 (nat y))"

definition toISOString :: "UTC \<Rightarrow> string" where
  "toISOString t =
     year_string (year t) @ ''-'' @ pad 2 (month t) @ ''-'' @ pad 2 (day t) @ ''T'' @
     pad 2 (hours t) @ '':'' @ pad 2 (minutes t) @ '':'' @ pad 2 (seconds t) @ ''.'' @
     pad 3 (milliseconds t) @ ''Z''"

text \<open>
  What the store sends to the listeners registered on \<^verbatim>\<open>kvs.onSet\<close> and
  \<^verbatim>\<open>kvs.onDelete\<close>, and the listener that receives it.
\<close>

datatype notification = Records_set "Entry list" | Records_deleted "string list"

fun notify :: "(string \<Rightarrow> string) \<Rightarrow> notification \<Rightarrow> Model \<Rightarrow> Model" where
  "notify ffn (Records_set records) m = onSet ffn records m"
| "notify ffn (Records_deleted keys) m = onDelete keys m"

text \<open>
  \<^verbatim>\<open>add\<close>. \<open>now\<close> is what \<^verbatim>\<open>new Date()\<close> reads and \<open>rnd\<close> what \<^verbatim>\<open>makeRandomString(4)\<close>
  returns (\<^verbatim>\<open>../util/random\<close> is not among the sources). The method is suspended at
  \<^verbatim>\<open>await this._kvs.set([entry])\<close>, and the store may call the listeners before the
  promise settles: \<open>kvs_set\<close> gives the outcome of the promise (\<open>Inl\<close> is a rejection,
  which \<^verbatim>\<open>await\<close> rethrows) and the notifications the store sent meanwhile, in order.
  The result is paired with the model as it is when the call returns or fails.
\<close>

definition add ::
  "(string \<Rightarrow> string) \<Rightarrow> UTC \<Rightarrow> string \<Rightarrow>
     (Entry list \<Rightarrow> (error + unit) \<times> notification list) \<Rightarrow> DeletedItem \<Rightarrow> Model
     \<Rightarrow> (error + Entry) \<times> Model" where
  "add ffn now rnd kvs_set itm m =
     (let deleted_at = toISOString now;
          k = deleted_at @ ''-'' @ rnd;
          entry = \<lparr>e_key = k, e_value = \<lparr>sv_deleted_at = deleted_at, sv_item = itm\<rparr>\<rparr>;
          (outcome, sent) = kvs_set [entry];
          m' = fold (notify ffn) sent m
      in case outcome of
           Inl err \<Rightarrow> (Inl err, m')
         | Inr u \<Rightarrow> (Inr entry, m'))"

text \<open>
  \<^verbatim>\<open>drop\<close> returns the promise of \<^verbatim>\<open>this._kvs.delete([key])\<close> as it is; \<open>kvs_delete\<close>
  gives its outcome and the notifications the store sent before it settled.
\<close>

definition drop_key ::
  "(string \<Rightarrow> string) \<Rightarrow> (string list \<Rightarrow> (error + unit) \<times> notification list) \<Rightarrow> string
     \<Rightarrow> Model \<Rightarrow> (error + unit) \<times> Model" where
  "drop_key ffn kvs_delete k m =
     (let (outcome, sent) = kvs_delete [k] in (outcome, fold (notify ffn) sent m))"

section \<open>Interleavings\<close>

text \<open>
  JavaScript runs each listener and each iteration of the hydration loop to
  completion; they interleave only at the \<^verbatim>\<open>await\<close>s. An event is one such atomic
  piece: the hydration loop receiving a record, ending, or being stopped by an error
  of the iterator; a notification of the store; a call of \<^verbatim>\<open>add\<close> or \<^verbatim>\<open>drop\<close>,
  with the notifications the store sends before the call returns.
  The hydration events are possible only while the loop is running.
\<close>

datatype event =
    Hydrate_record Entry
  | Hydrate_done
  | Hydrate_fail error
  | Set_notify "Entry list"
  | Delete_notify "string list"
  | Add_call UTC string "Entry list \<Rightarrow> (error + unit) \<times> notification list" DeletedItem
  | Drop_call "string list \<Rightarrow> (error + unit) \<times> notification list" string

fun step :: "(string \<Rightarrow> string) \<Rightarrow> event \<Rightarrow> Model \<Rightarrow> Model option" where
  "step ffn (Hydrate_record r) m =
     (if hydration m = Running then Some (hydrate_record ffn r m) else None)"
| "step ffn Hydrate_done m =
     (if hydration m = Running then Some (m\<lparr>ready := True, hydration := Finished\<rparr>)
      else None)"
| "step ffn (Hydrate_fail err) m =
     (if hydration m = Running then Some (m\<lparr>hydration := Failed\<rparr>) else None)"
| "step ffn (Set_notify records) m = Some (onSet ffn records m)"
| "step ffn (Delete_notify keys) m = Some (onDelete keys m)"
| "step ffn (Add_call now rnd kvs_set itm) m = Some (snd (add ffn now rnd kvs_set itm m))"
| "step ffn (Drop_call kvs_delete k) m = Some (snd (drop_key ffn kvs_delete k m))"

fun run :: "(string \<Rightarrow> string) \<Rightarrow> event list \<Rightarrow> Model \<Rightarrow> Model option" where
  "run ffn [] m = Some m"
| "run ffn (ev # evs) m =
     (case step ffn ev m of None \<Rightarrow> None | Some m' \<Rightarrow> run ffn evs m')"

fun is_Hydrate_done :: "event \<Rightarrow> bool" where
  "is_Hydrate_done Hydrate_done = True"
| "is_Hydrate_done ev = False"

fun is_Hydrate_fail :: "event \<Rightarrow> bool" where
  "is_Hydrate_fail (Hydrate_fail err) = True"
| "is_Hydrate_fail ev = False"

section \<open>Well-formed models\<close>

text \<open>
  The shape every reachable model has: no reference occurs twice in \<open>entries\<close>,
  every reference in \<open>entries\<close> points to an allocated object whose key the cache
  knows, and every cached reference is an element of \<open>entries\<close> holding the object
  of that key.
\<close>

definition wf_model :: "Model \<Rightarrow> bool" where
  "wf_model m \<longleftrightarrow>
     distinct (entries m) \<and>
     (\<forall>a \<in> set (entries m).
        a < length (objects m) \<and> key (objects m ! a) \<in> dom (entry_cache m)) \<and>
     (\<forall>k a. entry_cache m k = Some a \<longrightarrow>
        a \<in> set (entries m) \<and> key (objects m ! a) = k)"

section \<open>Clock readings and their order\<close>

text \<open>
  A reading of the clock with every field in its calendar range and the year in the
  range that \<^verbatim>\<open>toISOString\<close> prints with four digits; and the chronological order of
  two readings, field by field from the year down to the millisecond.
\<close>

definition valid_utc :: "UTC \<Rightarrow> bool" where
  "valid_utc t \<longleftrightarrow>
     0 \<le> year t \<and> year t \<le> 9999 \<and> 1 \<le> month t \<and> month t \<le> 12 \<and>
     1 \<le> day t \<and> day t \<le> 31 \<and> hours t < 24 \<and> minutes t < 60 \<and>
     seconds t < 60 \<and> milliseconds t < 1000"

definition earlier :: "UTC \<Rightarrow> UTC \<Rightarrow> bool" where
  "earlier a b \<longleftrightarrow>
     year a < year b \<or> year a = year b \<and>
     (month a < month b \<or> month a = month b \<and>
     (day a < day b \<or> day a = day b \<and>
     (hours a < hours b \<or> hours a = hours b \<and>
     (minutes a < minutes b \<or> minutes a = minutes b \<and>
     (seconds a < seconds b \<or> seconds a = seconds b \<and>
      milliseconds a < milliseconds b)))))"

text \<open>
  The shape \<^verbatim>\<open>YYYY-MM-DDTHH:mm:ss.sssZ\<close> as a check on strings: in the template, \<open>d\<close>
  stands for a decimal digit and every other character for itself.
\<close>

definition is_digit :: "char \<Rightarrow> bool" where
  "is_digit c \<longleftrightarrow> CHR ''0'' \<le> c \<and> c \<le> CHR ''9''"

fun matches :: "string \<Rightarrow> string \<Rightarrow> bool" where
  "matches [] [] = True"
| "matches (p # ps) (c # cs) = ((if p = CHR ''d'' then is_digit c else c = p) \<and> matches ps cs)"
| "matches ps cs = False"

definition iso_8601 :: "string \<Rightarrow> bool" where
  "iso_8601 s = matches ''dddd-dd-ddTdd:dd:dd.dddZ'' s"

section \<open>Sample inputs\<close>

text \<open>
  Concrete inputs on which the model is run below: a formatter that stands for
  \<^verbatim>\<open>friendlyFolderName\<close> (the general theorems hold for every formatter), a
  persisted folder and a persisted bookmark.
\<close>

definition sample_friendlyFolderName :: "string \<Rightarrow> string" where
  "sample_friendlyFolderName t = ''Saved '' @ t"

definition folder_record :: Entry where
  "folder_record =
     \<lparr>e_key = ''k1'',
      e_value = \<lparr>sv_deleted_at = ''d1'',
                 sv_item = DeletedFolder ''T'' [DeletedFolder ''U'' []]\<rparr>\<rparr>"

definition bookmark_record :: Entry where
  "bookmark_record =
     \<lparr>e_key = ''k2'',
      e_value = \<lparr>sv_deleted_at = ''d2'',
                 sv_item = DeletedBookmark ''B'' ''http://x'' None\<rparr>\<rparr>"

text \<open>
  The model after hydration has read \<open>folder_record\<close>, the same model after the
  iteration then failed, and after it then completed; the model in which hydration
  read \<open>folder_record\<close> after a notification for it; a record that overwrites the
  cached key; two readings of the clock one millisecond apart; an item; a store that
  accepts a write and notifies later, a store that notifies of the write before its
  promise settles, and stores that reject.
\<close>

definition one_folder_model :: Model where
  "one_folder_model =
     \<lparr>ready = False, entries = [0], entry_cache = [''k1'' \<mapsto> 0],
      objects = [\<lparr>key = ''k1'', deleted_at = New_Date ''d1'',
                  item = DeletedFolder ''Saved T'' [DeletedFolder ''U'' []]\<rparr>],
      hydration = Running\<rparr>"

definition failed_model :: Model where
  "failed_model =
     \<lparr>ready = False, entries = [0], entry_cache = [''k1'' \<mapsto> 0],
      objects = [\<lparr>key = ''k1'', deleted_at = New_Date ''d1'',
                  item = DeletedFolder ''Saved T'' [DeletedFolder ''U'' []]\<rparr>],
      hydration = Failed\<rparr>"

definition hydrated_model :: Model where
  "hydrated_model =
     \<lparr>ready = True, entries = [0], entry_cache = [''k1'' \<mapsto> 0],
      objects = [\<lparr>key = ''k1'', deleted_at = New_Date ''d1'',
                  item = DeletedFolder ''Saved T'' [DeletedFolder ''U'' []]\<rparr>],
      hydration = Finished\<rparr>"

definition duplicated_model :: Model where
  "duplicated_model =
     \<lparr>ready = True, entries = [0, 1], entry_cache = [''k1'' \<mapsto> 1],
      objects = [\<lparr>key = ''k1'', deleted_at = New_Date ''d1'',
                  item = DeletedFolder ''Saved T'' [DeletedFolder ''U'' []]\<rparr>,
                 \<lparr>key = ''k1'', deleted_at = New_Date ''d1'',
                  item = DeletedFolder ''Saved T'' [DeletedFolder ''U'' []]\<rparr>],
      hydration = Finished\<rparr>"

definition overwriting_record :: Entry where
  "overwriting_record =
     \<lparr>e_key = ''k1'',
      e_value = \<lparr>sv_deleted_at = ''d9'',
                 sv_item = DeletedBookmark ''B'' ''http://x'' None\<rparr>\<rparr>"

definition sample_now :: UTC where
  "sample_now = \<lparr>year = 2021, month = 3, day = 7, hours = 9, minutes = 5, seconds = 1,
                  milliseconds = 42\<rparr>"

definition sample_later :: UTC where
  "sample_later = \<lparr>year = 2021, month = 3, day = 7, hours = 9, minutes = 5, seconds = 1,
                    milliseconds = 43\<rparr>"

definition sample_item :: DeletedItem where
  "sample_item = DeletedBookmark ''A'' ''http://x'' None"

definition accepting_set :: "Entry list \<Rightarrow> (error + unit) \<times> notification list" where
  "accepting_set records = (Inr (), [])"




section \<open>The invariant of the reachable models\<close>

lemma wf_init: "wf_model Model_init"
  by (simp add: wf_model_def Model_init_def)

lemma wf_hydrate_record: "wf_model m \<Longrightarrow> wf_model (hydrate_record ffn r m)"
  unfolding wf_model_def hydrate_record_def
  by (auto simp: nth_append src2state_def dom_def)

lemma wf_onSet_record: "wf_model m \<Longrightarrow> wf_model (onSet_record ffn r m)"
  unfolding wf_model_def onSet_record_def
  by (auto simp: nth_append src2state_def dom_def nth_list_update split: option.splits)

lemma wf_onSet: "wf_model m \<Longrightarrow> wf_model (onSet ffn rs m)"
  unfolding onSet_def by (induction rs arbitrary: m) (auto simp: wf_onSet_record)

lemma fold_remove: "fold (\<lambda>k c. c(k := None)) ks c = (\<lambda>k. if k \<in> set ks then None else c k)"
  by (induction ks arbitrary: c) (auto simp: fun_eq_iff)

lemma wf_onDelete: "wf_model m \<Longrightarrow> wf_model (onDelete ks m)"
  unfolding wf_model_def onDelete_def
  by (auto simp: fold_remove dom_def split: if_splits)

lemma wf_ready_update: "wf_model (m\<lparr>ready := b\<rparr>) = wf_model m"
  by (simp add: wf_model_def)

lemma wf_hydration_update: "wf_model (m\<lparr>hydration := h\<rparr>) = wf_model m"
  by (simp add: wf_model_def)

lemma wf_notify: "wf_model m \<Longrightarrow> wf_model (notify ffn n m)"
  by (cases n) (simp_all add: wf_onSet wf_onDelete)

lemma wf_notify_all: "wf_model m \<Longrightarrow> wf_model (fold (notify ffn) ns m)"
  by (induction ns arbitrary: m) (simp_all add: wf_notify)

lemma add_model:
  "snd (add ffn now rnd kvs_set itm m) =
     fold (notify ffn)
       (snd (kvs_set [\<lparr>e_key = toISOString now @ ''-'' @ rnd,
                        e_value = \<lparr>sv_deleted_at = toISOString now, sv_item = itm\<rparr>\<rparr>])) m"
  by (simp add: add_def Let_def split: prod.splits sum.splits)

lemma drop_model:
  "snd (drop_key ffn kvs_delete k m) = fold (notify ffn) (snd (kvs_delete [k])) m"
  by (simp add: drop_key_def split: prod.splits)

lemma wf_step: "wf_model m \<Longrightarrow> step ffn ev m = Some m' \<Longrightarrow> wf_model m'"
  by (cases ev)
     (auto simp: wf_hydrate_record wf_onSet wf_onDelete wf_notify_all add_model drop_model
        wf_ready_update wf_hydration_update split: if_splits)

lemma wf_run: "wf_model m \<Longrightarrow> run ffn evs m = Some m' \<Longrightarrow> wf_model m'"
  by (induction evs arbitrary: m) (auto split: option.splits dest: wf_step)

lemma keys_wf: "wf_model m \<Longrightarrow> entry_keys m = dom (entry_cache m)"
  unfolding wf_model_def entry_keys_def entries_view_def
  by (auto simp: dom_def)

section \<open>The readiness flag along a run\<close>

lemma done_not_fail: "is_Hydrate_done ev \<Longrightarrow> \<not> is_Hydrate_fail ev"
  by (cases ev) auto

lemma run_snoc:
  "run ffn (evs @ [ev]) m = (case run ffn evs m of None \<Rightarrow> None | Some m' \<Rightarrow> step ffn ev m')"
  by (induction evs arbitrary: m) (auto split: option.splits)

lemma run_append:
  "run ffn (evs @ evs') m = (case run ffn evs m of None \<Rightarrow> None | Some m' \<Rightarrow> run ffn evs' m')"
  by (induction evs arbitrary: m) (auto split: option.splits)

lemma onSet_record_flags:
  "ready (onSet_record ffn r m) = ready m \<and> hydration (onSet_record ffn r m) = hydration m"
  by (simp add: onSet_record_def split: option.splits)

lemma onSet_flags:
  "ready (onSet ffn rs m) = ready m \<and> hydration (onSet ffn rs m) = hydration m"
  unfolding onSet_def by (induction rs arbitrary: m) (simp_all add: onSet_record_flags)

lemma onDelete_flags:
  "ready (onDelete ks m) = ready m \<and> hydration (onDelete ks m) = hydration m"
  by (simp add: onDelete_def)

lemma hydrate_record_flags:
  "ready (hydrate_record ffn r m) = ready m \<and> hydration (hydrate_record ffn r m) = hydration m"
  by (simp add: hydrate_record_def)

lemma notify_flags:
  "ready (notify ffn n m) = ready m \<and> hydration (notify ffn n m) = hydration m"
  by (cases n) (simp_all add: onSet_flags onDelete_flags)

lemma notify_all_flags:
  "ready (fold (notify ffn) ns m) = ready m \<and>
   hydration (fold (notify ffn) ns m) = hydration m"
  by (induction ns arbitrary: m) (simp_all add: notify_flags)

text \<open>What a step does to the two flags, by the kind of the event.\<close>

lemma step_flags:
  assumes "step ffn ev m = Some m'"
  shows "if is_Hydrate_done ev then hydration m = Running \<and> hydration m' = Finished \<and> ready m'
         else if is_Hydrate_fail ev
           then hydration m = Running \<and> hydration m' = Failed \<and> ready m' = ready m
         else hydration m' = hydration m \<and> ready m' = ready m"
  using assms
  by (cases ev)
     (auto simp: onSet_flags onDelete_flags hydrate_record_flags add_model drop_model
           notify_all_flags split: if_splits)

lemma run_flags:
  assumes "run ffn evs Model_init = Some m"
  shows "(hydration m = Finished \<longleftrightarrow> (\<exists>ev \<in> set evs. is_Hydrate_done ev)) \<and>
         (hydration m = Failed \<longleftrightarrow> (\<exists>ev \<in> set evs. is_Hydrate_fail ev)) \<and>
         (ready m \<longleftrightarrow> hydration m = Finished) \<and>
         length (filter is_Hydrate_done evs) \<le> 1"
  using assms
proof (induction evs arbitrary: m rule: rev_induct)
  case Nil
  then show ?case by (auto simp: Model_init_def)
next
  case (snoc ev evs)
  from snoc.prems obtain m0 where m0: "run ffn evs Model_init = Some m0"
    and st: "step ffn ev m0 = Some m"
    by (auto simp: run_snoc split: option.splits)
  note ih = snoc.IH [OF m0]
  from step_flags [OF st] ih show ?case
    by (cases "hydration m0") (auto split: if_splits dest: done_not_fail)
qed

section \<open>Hydration on its own\<close>

text \<open>
  In a well-formed model a cached reference is an element of \<open>entries\<close>, and a
  hydration loop that no notification interrupts appends the derived records in the
  order of the listing.
\<close>

lemma wf_cached:
  "wf_model m \<Longrightarrow> entry_cache m k = Some a \<Longrightarrow>
     a \<in> set (entries m) \<and> a < length (objects m) \<and> key (objects m ! a) = k"
  by (auto simp: wf_model_def)

lemma entries_view_hydrate_record:
  "wf_model m \<Longrightarrow>
     entries_view (hydrate_record ffn r m) = entries_view m @ [src2state ffn r]"
  by (simp add: wf_model_def hydrate_record_def entries_view_def nth_append)

lemma run_hydrate_records:
  "wf_model m \<Longrightarrow> hydration m = Running \<Longrightarrow>
     \<exists>m'. run ffn (map Hydrate_record rs) m = Some m' \<and> wf_model m' \<and>
          hydration m' = Running \<and> ready m' = ready m \<and>
          entries_view m' = entries_view m @ map (src2state ffn) rs"
proof (induction rs arbitrary: m)
  case Nil
  then show ?case by simp
next
  case (Cons r rs)
  let ?m1 = "hydrate_record ffn r m"
  have "wf_model ?m1" "hydration ?m1 = Running" "ready ?m1 = ready m"
    using Cons.prems by (simp_all add: wf_hydrate_record hydrate_record_flags)
  moreover have "entries_view ?m1 = entries_view m @ [src2state ffn r]"
    using Cons.prems by (simp add: entries_view_hydrate_record)
  ultimately show ?case
    using Cons.IH [of ?m1] Cons.prems by auto
qed

lemma failed_hydration_entries:
  "map_option (\<lambda>m. (ready m, hydration m, entries_view m))
     (run ffn (map Hydrate_record rs @ [Hydrate_fail err]) Model_init)
   = Some (False, Failed, map (src2state ffn) rs)"
proof -
  obtain m' where m': "run ffn (map Hydrate_record rs) Model_init = Some m'"
    "hydration m' = Running" "ready m' = ready Model_init"
    "entries_view m' = entries_view Model_init @ map (src2state ffn) rs"
    using run_hydrate_records [OF wf_init, of ffn rs] by (auto simp: Model_init_def)
  then show ?thesis
    by (simp add: run_snoc entries_view_def Model_init_def)
qed

section \<open>The sample runs\<close>

lemmas sample_defs = sample_friendlyFolderName_def folder_record_def bookmark_record_def

lemmas run_defs = Model_init_def onSet_def onSet_record_def hydrate_record_def onDelete_def src2state_def

lemma run_one_folder:
  "run sample_friendlyFolderName [Hydrate_record folder_record] Model_init
   = Some one_folder_model"
  by (simp add: run_defs sample_defs one_folder_model_def)

lemma run_hydrated:
  "run sample_friendlyFolderName [Hydrate_record folder_record, Hydrate_done] Model_init
   = Some hydrated_model"
  by (simp add: run_defs sample_defs hydrated_model_def)

lemma run_failed:
  "run sample_friendlyFolderName
     [Hydrate_record folder_record, Hydrate_fail (Store_error ''io'')] Model_init
   = Some failed_model"
  by (simp add: run_defs sample_defs failed_model_def)

section \<open>Keys made by \<^verbatim>\<open>add\<close>\<close>

text \<open>
  Zero-padded decimal fields of one width compare as the numbers do, so the strings
  \<^verbatim>\<open>toISOString\<close> prints for two valid readings compare as the readings do; since all
  of them have 24 characters, what follows the timestamp in a key matters only
  between equal readings.
\<close>

lemma length_pad: "length (pad w n) = w"
  by (induction w arbitrary: n) simp_all

lemma append_less_append:
  fixes a b :: "'a::linorder list"
  shows "length a = length b \<Longrightarrow> (a @ x < b @ y \<longleftrightarrow> a < b \<or> a = b \<and> x < y)"
  by (induction a b rule: list_induct2) auto

lemma of_char_digit: "of_char (digit a) = (48 + a mod 10 :: nat)"
  by (simp add: digit_def)

lemma digit_less: "digit a < digit b \<longleftrightarrow> a mod 10 < b mod 10"
  by (simp add: less_char_def of_char_digit)

lemma digit_eq: "digit a = digit b \<longleftrightarrow> a mod 10 = b mod 10"
proof
  assume "digit a = digit b"
  then have "of_char (digit a) = (of_char (digit b) :: nat)" by simp
  then show "a mod 10 = b mod 10" by (simp add: of_char_digit)
next
  assume "a mod 10 = b mod 10"
  then show "digit a = digit b" by (simp add: digit_def)
qed

lemma base10_less:
  "(b::nat) < 10 \<Longrightarrow> d < 10 \<Longrightarrow> 10 * a + b < 10 * c + d \<longleftrightarrow> a < c \<or> a = c \<and> b < d"
  by linarith

lemma nat_less_div_mod:
  "(n::nat) < m \<longleftrightarrow> n div 10 < m div 10 \<or> n div 10 = m div 10 \<and> n mod 10 < m mod 10"
proof -
  have "n < m \<longleftrightarrow> 10 * (n div 10) + n mod 10 < 10 * (m div 10) + m mod 10"
    by simp
  also have "\<dots> \<longleftrightarrow> n div 10 < m div 10 \<or> n div 10 = m div 10 \<and> n mod 10 < m mod 10"
    by (rule base10_less) simp_all
  finally show ?thesis .
qed

lemma nat_eq_div_mod: "(n::nat) = m \<longleftrightarrow> n div 10 = m div 10 \<and> n mod 10 = m mod 10"
  by (metis div_mult_mod_eq)

lemma div10_bound: "(n::nat) < 10 ^ Suc w \<Longrightarrow> n div 10 < 10 ^ w"
  by (simp add: less_mult_imp_div_less mult.commute)

lemma pad_eq: "n < 10 ^ w \<Longrightarrow> m < 10 ^ w \<Longrightarrow> pad w n = pad w m \<longleftrightarrow> n = m"
proof (induction w arbitrary: n m)
  case 0
  then show ?case by simp
next
  case (Suc w)
  from Suc.IH [OF div10_bound [OF Suc.prems(1)] div10_bound [OF Suc.prems(2)]]
  have "pad (Suc w) n = pad (Suc w) m \<longleftrightarrow> n div 10 = m div 10 \<and> n mod 10 = m mod 10"
    by (simp add: digit_eq)
  then show ?case
    using nat_eq_div_mod [of n m] by simp
qed

lemma pad_less: "n < 10 ^ w \<Longrightarrow> m < 10 ^ w \<Longrightarrow> pad w n < pad w m \<longleftrightarrow> n < m"
proof (induction w arbitrary: n m)
  case 0
  then show ?case by simp
next
  case (Suc w)
  note b = div10_bound [OF Suc.prems(1)] div10_bound [OF Suc.prems(2)]
  have "pad (Suc w) n < pad (Suc w) m \<longleftrightarrow>
          n div 10 < m div 10 \<or> n div 10 = m div 10 \<and> n mod 10 < m mod 10"
    using Suc.IH [OF b] pad_eq [OF b]
    by (simp add: append_less_append length_pad digit_less)
  then show ?case
    using nat_less_div_mod [of n m] by simp
qed

lemma pad_append_less:
  "n < 10 ^ w \<Longrightarrow> m < 10 ^ w \<Longrightarrow>
     pad w n @ x < pad w m @ y \<longleftrightarrow> n < m \<or> n = m \<and> x < y"
  by (simp add: append_less_append length_pad pad_less pad_eq)

lemma sep_less: "c # x < c # (y :: string) \<longleftrightarrow> x < y"
  by simp

lemma toISOString_valid:
  "valid_utc t \<Longrightarrow>
     toISOString t =
       pad 4 (nat (year t)) @ CHR ''-'' # pad 2 (month t) @ CHR ''-'' # pad 2 (day t) @
       CHR ''T'' # pad 2 (hours t) @ CHR '':'' # pad 2 (minutes t) @
       CHR '':'' # pad 2 (seconds t) @ CHR ''.'' # pad 3 (milliseconds t) @ ''Z''"
  by (simp add: toISOString_def year_string_def valid_utc_def)

lemma valid_utc_bounds:
  assumes "valid_utc t"
  shows "nat (year t) < 10 ^ 4" "month t < 10 ^ 2" "day t < 10 ^ 2" "hours t < 10 ^ 2"
    "minutes t < 10 ^ 2" "seconds t < 10 ^ 2" "milliseconds t < 10 ^ 3"
  using assms by (auto simp: valid_utc_def)

lemma length_toISOString: "valid_utc t \<Longrightarrow> length (toISOString t) = 24"
  by (simp add: toISOString_valid length_pad)

lemma key_less_iff:
  assumes "valid_utc t1" and "valid_utc t2"
  shows "toISOString t1 @ ''-'' @ r1 < toISOString t2 @ ''-'' @ r2
         \<longleftrightarrow> earlier t1 t2 \<or> t1 = t2 \<and> r1 < r2"
proof -
  note b1 = valid_utc_bounds [OF assms(1)] and b2 = valid_utc_bounds [OF assms(2)]
  have y: "nat (year t1) < nat (year t2) \<longleftrightarrow> year t1 < year t2"
    "nat (year t1) = nat (year t2) \<longleftrightarrow> year t1 = year t2"
    using assms by (auto simp: valid_utc_def)
  have "toISOString t1 @ ''-'' @ r1 < toISOString t2 @ ''-'' @ r2 \<longleftrightarrow>
      earlier t1 t2 \<or>
      (year t1 = year t2 \<and> month t1 = month t2 \<and> day t1 = day t2 \<and> hours t1 = hours t2 \<and>
       minutes t1 = minutes t2 \<and> seconds t1 = seconds t2 \<and>
       milliseconds t1 = milliseconds t2) \<and> r1 < r2"
    unfolding toISOString_valid [OF assms(1)] toISOString_valid [OF assms(2)] earlier_def
      append_assoc append_Cons append_Nil
      pad_append_less [OF b1(1) b2(1)] pad_append_less [OF b1(2) b2(2)]
      pad_append_less [OF b1(3) b2(3)] pad_append_less [OF b1(4) b2(4)]
      pad_append_less [OF b1(5) b2(5)] pad_append_less [OF b1(6) b2(6)]
      pad_append_less [OF b1(7) b2(7)] sep_less y
    by blast
  moreover have "t1 = t2 \<longleftrightarrow> year t1 = year t2 \<and> month t1 = month t2 \<and> day t1 = day t2 \<and>
       hours t1 = hours t2 \<and> minutes t1 = minutes t2 \<and> seconds t1 = seconds t2 \<and>
       milliseconds t1 = milliseconds t2"
    by (cases t1, cases t2) auto
  ultimately show ?thesis by simp
qed

lemma is_digit_digit: "is_digit (digit n)"
proof -
  have "of_char (CHR ''0'') = (48::nat)" "of_char (CHR ''9'') = (57::nat)"
    by simp_all
  then show ?thesis
    by (simp add: is_digit_def less_eq_char_def of_char_digit)
qed

lemma matches_append:
  "matches p s \<Longrightarrow> matches q u \<Longrightarrow> matches (p @ q) (s @ u)"
  by (induction p s rule: matches.induct) auto

lemma matches_pad: "matches (replicate w (CHR ''d'')) (pad w n)"
proof (induction w arbitrary: n)
  case 0
  then show ?case by simp
next
  case (Suc w)
  have "matches (replicate w (CHR ''d'') @ [CHR ''d'']) (pad w (n div 10) @ [digit n])"
    by (rule matches_append) (simp_all add: Suc.IH is_digit_digit)
  then show ?case
    by (simp add: replicate_append_same)
qed

lemma matches_sep: "matches p s \<Longrightarrow> c \<noteq> CHR ''d'' \<Longrightarrow> matches (c # p) (c # s)"
  by simp

lemma iso_8601_toISOString: "valid_utc t \<Longrightarrow> iso_8601 (toISOString t)"
proof -
  assume v: "valid_utc t"
  have r: "replicate 2 (CHR ''d'') = ''dd''" "replicate 3 (CHR ''d'') = ''ddd''"
    "replicate 4 (CHR ''d'') = ''dddd''"
    by (simp_all add: numeral_eq_Suc)
  have d2: "matches ''dd'' (pad 2 n)" for n
    using matches_pad [of 2 n] unfolding r .
  have d3: "matches ''ddd'' (pad 3 n)" for n
    using matches_pad [of 3 n] unfolding r .
  have d4: "matches ''dddd'' (pad 4 n)" for n
    using matches_pad [of 4 n] unfolding r .
  have "matches (''dddd'' @ CHR ''-'' # ''dd'' @ CHR ''-'' # ''dd'' @ CHR ''T'' # ''dd'' @
      CHR '':'' # ''dd'' @ CHR '':'' # ''dd'' @ CHR ''.'' # ''ddd'' @ ''Z'')
     (pad 4 (nat (year t)) @ CHR ''-'' # pad 2 (month t) @ CHR ''-'' # pad 2 (day t) @
       CHR ''T'' # pad 2 (hours t) @ CHR '':'' # pad 2 (minutes t) @
       CHR '':'' # pad 2 (seconds t) @ CHR ''.'' # pad 3 (milliseconds t) @ ''Z'')"
    by (intro matches_append matches_sep d2 d3 d4) simp_all
  then show ?thesis
    by (simp add: iso_8601_def toISOString_valid [OF v])
qed

lemma earlier_irrefl: "\<not> earlier t t"
  by (simp add: earlier_def)

lemma add_result:
  "fst (add ffn now rnd kvs_set itm m) = Inr e \<Longrightarrow>
     e = \<lparr>e_key = toISOString now @ ''-'' @ rnd,
          e_value = \<lparr>sv_deleted_at = toISOString now, sv_item = itm\<rparr>\<rparr>"
  by (auto simp: add_def Let_def split: prod.splits sum.splits)

lemma toISOString_sample_now: "toISOString sample_now = ''2021-03-07T09:05:01.042Z''"
  by code_simp

lemma toISOString_sample_later: "toISOString sample_later = ''2021-03-07T09:05:01.043Z''"
  by code_simp

lemma add_sample_now:
  "fst (add ffn sample_now rnd accepting_set sample_item Model_init)
     = Inr \<lparr>e_key = ''2021-03-07T09:05:01.042Z-'' @ rnd,
            e_value = \<lparr>sv_deleted_at = ''2021-03-07T09:05:01.042Z'', sv_item = sample_item\<rparr>\<rparr>"
  by (simp add: add_def Let_def accepting_set_def toISOString_sample_now)

lemma add_sample_later:
  "fst (add ffn sample_later rnd accepting_set sample_item Model_init)
     = Inr \<lparr>e_key = ''2021-03-07T09:05:01.043Z-'' @ rnd,
            e_value = \<lparr>sv_deleted_at = ''2021-03-07T09:05:01.043Z'', sv_item = sample_item\<rparr>\<rparr>"
  by (simp add: add_def Let_def accepting_set_def toISOString_sample_later)

section \<open>The claims\<close>

subsection \<open>C1: applying a set notification twice\<close>

text \<open>
  A notification for a fresh key stores the derived Deletion; the same notification
  again overwrites \<open>deleted_at\<close> and \<open>item\<close> with the record's own values, without
  \<^verbatim>\<open>src2state\<close>. The fields after two applications are those after one exactly when the
  item is not a folder or the formatter leaves its title alone.
\<close>

lemma set_once_fresh:
  "entries_view (onSet ffn [r] Model_init) = [src2state ffn r]"
  by (simp add: run_defs entries_view_def)

lemma set_twice_overwrites:
  "entries_view (onSet ffn [r] (onSet ffn [r] Model_init)) =
     [\<lparr>key = e_key r, deleted_at = New_Date (sv_deleted_at (e_value r)),
       item = sv_item (e_value r)\<rparr>]"
  by (simp add: run_defs entries_view_def)

lemma set_twice_same_fields_iff:
  "entries_view (onSet ffn [r] (onSet ffn [r] Model_init)) =
     entries_view (onSet ffn [r] Model_init)
   \<longleftrightarrow> (has_children (sv_item (e_value r)) \<longrightarrow>
          ffn (title (sv_item (e_value r))) = title (sv_item (e_value r)))"
  unfolding set_once_fresh set_twice_overwrites
  by (cases "sv_item (e_value r)") (auto simp: src2state_def)

text \<open>
  C1 says that a set notification applied twice for a key leaves the Deletion with the
  fields it has after one application, and that a folder's top-level title is the
  same whether the record arrives for a fresh key or overwrites a cached Deletion.
  The listener does otherwise on a folder whose title the formatter changes: after one
  application of the notification for \<open>folder_record\<close> the title is the formatted
  \<open>Saved T\<close>, after two it is the stored \<open>T\<close>.
\<close>

theorem set_twice_folder_title_differs:
  "map item (entries_view (onSet sample_friendlyFolderName [folder_record] Model_init))
     = [DeletedFolder ''Saved T'' [DeletedFolder ''U'' []]] \<and>
   map item (entries_view (onSet sample_friendlyFolderName [folder_record]
      (onSet sample_friendlyFolderName [folder_record] Model_init)))
     = [DeletedFolder ''T'' [DeletedFolder ''U'' []]]"
  by (simp add: set_once_fresh set_twice_overwrites src2state_def sample_defs)

subsection \<open>C2: hydration meeting a key that a notification has cached\<close>

text \<open>
  The two orders of arrival. A set notification after hydration has read the key
  finds the key in the cache and updates in place; hydration after the notification
  pushes a second Deletion with the same key.
\<close>

lemma hydrate_after_set_general:
  "map key (entries_view (hydrate_record ffn r (onSet ffn [r] Model_init))) = [e_key r, e_key r]"
  by (simp add: run_defs entries_view_def)

lemma set_after_hydrate_general:
  "map key (entries_view (onSet ffn [r] (hydrate_record ffn r Model_init))) = [e_key r]"
  by (simp add: run_defs entries_view_def)

text \<open>
  C2 says that when hydration meets a record whose key a set notification has already
  put into the cache (or the other way round), the second arrival updates the
  existing Deletion in place, so that a store with N distinct keys ends with exactly
  N entries and no duplicate key. The hydration loop never looks at the cache: with
  one key in the store, a set notification for it followed by hydration reading it and
  completing leaves \<open>ready\<close> true and two entries with the key \<open>k1\<close>, for one key in
  the cache.
\<close>

theorem hydration_after_set_duplicates:
  "run sample_friendlyFolderName
     [Set_notify [folder_record], Hydrate_record folder_record, Hydrate_done] Model_init
     = Some duplicated_model \<and>
   ready duplicated_model \<and>
   map key (entries_view duplicated_model) = [''k1'', ''k1''] \<and>
   dom (entry_cache duplicated_model) = {''k1''}"
  by (simp add: run_defs entries_view_def sample_defs duplicated_model_def)

subsection \<open>C3: the keys of the entries are the keys of the cache\<close>

text \<open>
  C3: in every model reached from the initial one by any interleaving of hydration
  steps, set notifications and delete notifications (and calls of \<^verbatim>\<open>add\<close> and
  \<^verbatim>\<open>drop\<close>), the set of keys occurring in \<open>entries\<close> equals the set of keys of the
  entry cache.
\<close>

theorem entries_cache_same_keys:
  "run ffn evs Model_init = Some m \<Longrightarrow> entry_keys m = dom (entry_cache m)"
  using wf_run [OF wf_init] keys_wf by blast

text \<open>
  A run with a notification before hydration, a key read twice and a deletion: it
  ends with two entries of key \<open>k1\<close> and \<open>k1\<close> alone in the cache.
\<close>

theorem entries_cache_same_keys_witness:
  "run sample_friendlyFolderName
     [Set_notify [folder_record], Hydrate_record bookmark_record, Hydrate_record folder_record,
      Delete_notify [''k2''], Hydrate_done] Model_init
   = Some \<lparr>ready = True, entries = [0, 2], entry_cache = [''k1'' \<mapsto> 2],
      objects =
        [\<lparr>key = ''k1'', deleted_at = New_Date ''d1'',
           item = DeletedFolder ''Saved T'' [DeletedFolder ''U'' []]\<rparr>,
         \<lparr>key = ''k2'', deleted_at = New_Date ''d2'',
           item = DeletedBookmark ''B'' ''http://x'' None\<rparr>,
         \<lparr>key = ''k1'', deleted_at = New_Date ''d1'',
           item = DeletedFolder ''Saved T'' [DeletedFolder ''U'' []]\<rparr>],
      hydration = Finished\<rparr>
   \<and> entry_keys \<lparr>ready = True, entries = [0, 2], entry_cache = [''k1'' \<mapsto> 2],
      objects =
        [\<lparr>key = ''k1'', deleted_at = New_Date ''d1'',
           item = DeletedFolder ''Saved T'' [DeletedFolder ''U'' []]\<rparr>,
         \<lparr>key = ''k2'', deleted_at = New_Date ''d2'',
           item = DeletedBookmark ''B'' ''http://x'' None\<rparr>,
         \<lparr>key = ''k1'', deleted_at = New_Date ''d1'',
           item = DeletedFolder ''Saved T'' [DeletedFolder ''U'' []]\<rparr>],
      hydration = Finished\<rparr> = {''k1''}"
proof -
  let ?evs = "[Set_notify [folder_record], Hydrate_record bookmark_record,
      Hydrate_record folder_record, Delete_notify [''k2''], Hydrate_done]"
  let ?m = "\<lparr>ready = True, entries = [0, 2], entry_cache = [''k1'' \<mapsto> 2],
      objects =
        [\<lparr>key = ''k1'', deleted_at = New_Date ''d1'',
           item = DeletedFolder ''Saved T'' [DeletedFolder ''U'' []]\<rparr>,
         \<lparr>key = ''k2'', deleted_at = New_Date ''d2'',
           item = DeletedBookmark ''B'' ''http://x'' None\<rparr>,
         \<lparr>key = ''k1'', deleted_at = New_Date ''d1'',
           item = DeletedFolder ''Saved T'' [DeletedFolder ''U'' []]\<rparr>],
      hydration = Finished\<rparr>"
  have r: "run sample_friendlyFolderName ?evs Model_init = Some ?m"
    by (simp add: run_defs sample_defs fun_eq_iff)
  from entries_cache_same_keys [OF r] r show ?thesis by simp
qed

subsection \<open>C4: the derived Deletion\<close>

text \<open>
  C4: the Deletion that hydration appends for a record, and the one a set notification
  appends for a record whose key is not in the cache, is \<^verbatim>\<open>src2state\<close> of the record. Its
  item is, for a folder, the folder with the formatted title and the children exactly
  as stored, and for a bookmark the stored item unchanged.
\<close>

theorem derived_deletion_item:
  "objects (hydrate_record ffn r m) ! last (entries (hydrate_record ffn r m)) = src2state ffn r \<and>
   (entry_cache m (e_key r) = None \<longrightarrow>
      objects (onSet ffn [r] m) ! last (entries (onSet ffn [r] m)) = src2state ffn r) \<and>
   key (src2state ffn r) = e_key r \<and>
   item (src2state ffn r) =
     (case sv_item (e_value r) of
        DeletedFolder t cs \<Rightarrow> DeletedFolder (ffn t) cs
      | DeletedBookmark t u f \<Rightarrow> DeletedBookmark t u f)"
  by (simp add: hydrate_record_def onSet_def onSet_record_def src2state_def
           split: DeletedItem.splits)

text \<open>On the sample folder and the sample bookmark, from the initial model.\<close>

theorem derived_deletion_item_witness:
  "entry_cache Model_init (e_key folder_record) = None \<and>
   objects (onSet sample_friendlyFolderName [folder_record] Model_init) !
     last (entries (onSet sample_friendlyFolderName [folder_record] Model_init))
   = src2state sample_friendlyFolderName folder_record \<and>
   item (src2state sample_friendlyFolderName folder_record)
   = DeletedFolder ''Saved T'' [DeletedFolder ''U'' []] \<and>
   item (src2state sample_friendlyFolderName bookmark_record)
   = DeletedBookmark ''B'' ''http://x'' None"
  using derived_deletion_item [of sample_friendlyFolderName folder_record Model_init]
    derived_deletion_item [of sample_friendlyFolderName bookmark_record Model_init]
  by (simp add: sample_defs Model_init_def)

subsection \<open>C5: what \<^verbatim>\<open>add\<close> and \<^verbatim>\<open>drop\<close> write themselves\<close>




subsection \<open>C6: the keys returned by \<^verbatim>\<open>add\<close>\<close>

text \<open>
  How two keys compare: for valid clock readings the key of a successful call is the
  timestamp of its reading, a hyphen and its suffix, and the keys of two calls compare
  by their readings first and by their suffixes between equal readings.
\<close>

lemma add_keys_compare:
  assumes "valid_utc t1" and "valid_utc t2"
    and "fst (add ffn1 t1 rnd1 kvs_set1 item1 m1) = Inr e1"
    and "fst (add ffn2 t2 rnd2 kvs_set2 item2 m2) = Inr e2"
  shows "e_key e1 < e_key e2 \<longleftrightarrow> earlier t1 t2 \<or> t1 = t2 \<and> rnd1 < rnd2"
    and "e_key e1 = toISOString t1 @ ''-'' @ rnd1"
    and "iso_8601 (toISOString t1)"
    and "sv_deleted_at (e_value e1) = toISOString t1"
    and "sv_item (e_value e1) = item1"
proof -
  show k1: "e_key e1 = toISOString t1 @ ''-'' @ rnd1"
    and "sv_deleted_at (e_value e1) = toISOString t1" "sv_item (e_value e1) = item1"
    using add_result [OF assms(3)] by simp_all
  have k2: "e_key e2 = toISOString t2 @ ''-'' @ rnd2"
    using add_result [OF assms(4)] by simp
  show "e_key e1 < e_key e2 \<longleftrightarrow> earlier t1 t2 \<or> t1 = t2 \<and> rnd1 < rnd2"
    unfolding k1 k2 by (rule key_less_iff [OF assms(1,2)])
  show "iso_8601 (toISOString t1)"
    by (rule iso_8601_toISOString [OF assms(1)])
qed

text \<open>
  On the samples: readings one millisecond apart order the keys against the suffixes.
\<close>

lemma add_keys_compare_sample:
  "''2021-03-07T09:05:01.042Z-zzzz'' < ''2021-03-07T09:05:01.043Z-aaaa''"
proof -
  have v: "valid_utc sample_now" "valid_utc sample_later"
    by (simp_all add: valid_utc_def sample_now_def sample_later_def)
  have e: "earlier sample_now sample_later"
    by (simp add: earlier_def sample_now_def sample_later_def)
  from add_keys_compare(1)
    [OF v add_sample_now [of sample_friendlyFolderName "''zzzz''"]
      add_sample_later [of sample_friendlyFolderName "''aaaa''"]] e
  show ?thesis by simp
qed

text \<open>
  C6 says that of two calls of \<^verbatim>\<open>add\<close>, the first having made its key before the
  second begins, the later one returns the lexicographically greater key. Two calls
  that read the clock within the same millisecond have the same timestamp, and their
  keys compare as the random suffixes do: here both calls succeed, the earlier one
  draws \<open>zzzz\<close> and the later one \<open>aaaa\<close>, and the key of the later call is the
  smaller one.
\<close>

theorem add_same_millisecond_keys:
  "fst (add sample_friendlyFolderName sample_now ''zzzz'' accepting_set sample_item Model_init)
     = Inr \<lparr>e_key = ''2021-03-07T09:05:01.042Z-zzzz'',
            e_value = \<lparr>sv_deleted_at = ''2021-03-07T09:05:01.042Z'', sv_item = sample_item\<rparr>\<rparr> \<and>
   fst (add sample_friendlyFolderName sample_now ''aaaa'' accepting_set sample_item Model_init)
     = Inr \<lparr>e_key = ''2021-03-07T09:05:01.042Z-aaaa'',
            e_value = \<lparr>sv_deleted_at = ''2021-03-07T09:05:01.042Z'', sv_item = sample_item\<rparr>\<rparr> \<and>
   \<not> ''2021-03-07T09:05:01.042Z-zzzz'' < ''2021-03-07T09:05:01.042Z-aaaa'' \<and>
   ''2021-03-07T09:05:01.042Z-aaaa'' < ''2021-03-07T09:05:01.042Z-zzzz''"
  by (simp add: add_sample_now)

subsection \<open>C7: the readiness flag\<close>

text \<open>
  C7: \<open>ready\<close> is false at construction. Along every run it is true exactly when the
  hydration loop has completed, which happens at most once; a run in which hydration
  failed has it false, and it stays false whatever follows, while a true flag stays
  true whatever follows. The failure itself changes neither \<open>entries\<close> nor the objects
  nor the cache, and a hydration that fails after reading the records \<open>rs\<close> with no
  notification in between leaves exactly their Deletions in \<open>entries\<close>, in order.
\<close>

theorem ready_set_once_by_hydration:
  assumes "run ffn evs Model_init = Some m"
  shows "\<not> ready Model_init \<and>
         (ready m \<longleftrightarrow> (\<exists>ev \<in> set evs. is_Hydrate_done ev)) \<and>
         length (filter is_Hydrate_done evs) \<le> 1 \<and>
         ((\<exists>ev \<in> set evs. is_Hydrate_fail ev) \<longrightarrow> \<not> ready m) \<and>
         (\<forall>evs' m'. run ffn evs' m = Some m' \<longrightarrow> ready m \<longrightarrow> ready m') \<and>
         (\<forall>evs' m'. run ffn evs' m = Some m' \<longrightarrow> hydration m = Failed \<longrightarrow>
            \<not> ready m' \<and> hydration m' = Failed) \<and>
         (\<forall>err m'. step ffn (Hydrate_fail err) m = Some m' \<longrightarrow>
            \<not> ready m' \<and> entries m' = entries m \<and> objects m' = objects m \<and>
            entry_cache m' = entry_cache m) \<and>
         (\<forall>rs err. map_option (\<lambda>m. (ready m, hydration m, entries_view m))
            (run ffn (map Hydrate_record rs @ [Hydrate_fail err]) Model_init)
            = Some (False, Failed, map (src2state ffn) rs))"
proof -
  note f = run_flags [OF assms]
  have later: "(ready m \<longrightarrow> ready m') \<and> (hydration m = Failed \<longrightarrow> \<not> ready m' \<and> hydration m' = Failed)"
    if "run ffn evs' m = Some m'" for evs' m'
  proof -
    have "run ffn (evs @ evs') Model_init = Some m'"
      using assms that by (simp add: run_append)
    from run_flags [OF this] f show ?thesis by auto
  qed
  have fail: "\<not> ready m' \<and> entries m' = entries m \<and> objects m' = objects m \<and>
            entry_cache m' = entry_cache m"
    if "step ffn (Hydrate_fail err) m = Some m'" for err m'
    using that f by (auto split: if_splits)
  have init: "\<not> ready Model_init"
    by (simp add: Model_init_def)
  have excl: "\<not> (hydration m = Finished \<and> hydration m = Failed)" by auto
  have a: "ready m \<longleftrightarrow> (\<exists>ev \<in> set evs. is_Hydrate_done ev)"
    using f by blast
  have b: "length (filter is_Hydrate_done evs) \<le> 1"
    using f by blast
  have c: "(\<exists>ev \<in> set evs. is_Hydrate_fail ev) \<longrightarrow> \<not> ready m"
    using f excl by blast
  from init a b c later fail failed_hydration_entries show ?thesis
    by blast
qed

text \<open>
  A completed hydration followed by a delete notification, and a failed one followed
  by a set notification.
\<close>

theorem ready_set_once_by_hydration_witness:
  "run sample_friendlyFolderName [Hydrate_record folder_record, Hydrate_done] Model_init
     = Some hydrated_model \<and> ready hydrated_model \<and>
   run sample_friendlyFolderName [Delete_notify [''k1'']] hydrated_model
     = Some (onDelete [''k1''] hydrated_model) \<and>
   ready (onDelete [''k1''] hydrated_model) \<and>
   run sample_friendlyFolderName
     [Hydrate_record folder_record, Hydrate_fail (Store_error ''io'')] Model_init
     = Some failed_model \<and> hydration failed_model = Failed \<and>
   run sample_friendlyFolderName [Set_notify [bookmark_record]] failed_model
     = Some (onSet sample_friendlyFolderName [bookmark_record] failed_model) \<and>
   \<not> ready (onSet sample_friendlyFolderName [bookmark_record] failed_model) \<and>
   run sample_friendlyFolderName [Hydrate_record folder_record] Model_init
     = Some one_folder_model \<and>
   step sample_friendlyFolderName (Hydrate_fail (Store_error ''io'')) one_folder_model
     = Some failed_model \<and>
   entries failed_model = entries one_folder_model \<and>
   objects failed_model = objects one_folder_model"
proof -
  have d: "run sample_friendlyFolderName [Delete_notify [''k1'']] hydrated_model
     = Some (onDelete [''k1''] hydrated_model)"
    by simp
  have s: "run sample_friendlyFolderName [Set_notify [bookmark_record]] failed_model
     = Some (onSet sample_friendlyFolderName [bookmark_record] failed_model)"
    by simp
  have f: "step sample_friendlyFolderName (Hydrate_fail (Store_error ''io'')) one_folder_model
     = Some failed_model"
    by (simp add: one_folder_model_def failed_model_def)
  have h: "ready hydrated_model" "hydration failed_model = Failed"
    by (simp_all add: hydrated_model_def failed_model_def)
  have p1: "ready (onDelete [''k1''] hydrated_model)"
    using ready_set_once_by_hydration [OF run_hydrated, THEN conjunct2, THEN conjunct2,
      THEN conjunct2, THEN conjunct2, THEN conjunct1, rule_format, OF d h(1)] .
  have p2: "\<not> ready (onSet sample_friendlyFolderName [bookmark_record] failed_model)"
    using ready_set_once_by_hydration [OF run_failed, THEN conjunct2, THEN conjunct2,
      THEN conjunct2, THEN conjunct2, THEN conjunct2, THEN conjunct1, rule_format, OF s h(2)]
    by simp
  have p3: "entries failed_model = entries one_folder_model \<and>
      objects failed_model = objects one_folder_model"
    using ready_set_once_by_hydration [OF run_one_folder, THEN conjunct2, THEN conjunct2,
      THEN conjunct2, THEN conjunct2, THEN conjunct2, THEN conjunct2, THEN conjunct1,
      rule_format, OF f]
    by simp
  show ?thesis
    by (intro conjI run_hydrated run_failed run_one_folder d s f h p1 p2
          p3 [THEN conjunct1] p3 [THEN conjunct2])
qed

subsection \<open>C8: a set notification for a cached key\<close>

text \<open>
  C8: in a reachable model, a set notification with one record whose key is cached
  changes nothing but the \<open>deleted_at\<close> and \<open>item\<close> fields of the cached object: the
  array of references and the cache are the same, so the length of \<open>entries\<close>, the
  position of the object and its identity with the cached one are kept; the object
  keeps its key; every other object, hence every other element of \<open>entries\<close>, is
  unchanged.
\<close>

theorem onSet_cached_in_place:
  assumes "run ffn evs Model_init = Some m" and "entry_cache m (e_key r) = Some a"
  shows "entries (onSet ffn [r] m) = entries m \<and>
         entry_cache (onSet ffn [r] m) = entry_cache m \<and>
         length (entries_view (onSet ffn [r] m)) = length (entries_view m) \<and>
         length (objects (onSet ffn [r] m)) = length (objects m) \<and>
         a \<in> set (entries m) \<and> distinct (entries m) \<and>
         objects (onSet ffn [r] m) ! a =
           \<lparr>key = e_key r, deleted_at = New_Date (sv_deleted_at (e_value r)),
            item = sv_item (e_value r)\<rparr> \<and>
         key (objects m ! a) = e_key r \<and>
         (\<forall>b. b \<noteq> a \<longrightarrow> objects (onSet ffn [r] m) ! b = objects m ! b) \<and>
         (\<forall>i < length (entries m). entries m ! i \<noteq> a \<longrightarrow>
            entries_view (onSet ffn [r] m) ! i = entries_view m ! i) \<and>
         ready (onSet ffn [r] m) = ready m \<and> hydration (onSet ffn [r] m) = hydration m"
proof -
  have wf: "wf_model m"
    using wf_run [OF wf_init assms(1)] .
  from wf_cached [OF wf assms(2)]
  have a: "a \<in> set (entries m)" "a < length (objects m)" "key (objects m ! a) = e_key r"
    by simp_all
  have d: "distinct (entries m)"
    using wf by (simp add: wf_model_def)
  have eq: "onSet ffn [r] m =
      m\<lparr>objects := (objects m)[a := (objects m ! a)
          \<lparr>deleted_at := New_Date (sv_deleted_at (e_value r)), item := sv_item (e_value r)\<rparr>]\<rparr>"
    using assms(2) by (simp add: onSet_def onSet_record_def)
  have obj: "objects (onSet ffn [r] m) ! a =
           \<lparr>key = e_key r, deleted_at = New_Date (sv_deleted_at (e_value r)),
            item = sv_item (e_value r)\<rparr>"
    using a by (simp add: eq)
  show ?thesis
    using a d obj by (simp add: eq entries_view_def)
qed

text \<open>Overwriting the one entry of the sample model.\<close>

theorem onSet_cached_in_place_witness:
  "run sample_friendlyFolderName [Hydrate_record folder_record] Model_init
     = Some one_folder_model \<and>
   entry_cache one_folder_model (e_key overwriting_record) = Some 0 \<and>
   entries (onSet sample_friendlyFolderName [overwriting_record] one_folder_model) = [0] \<and>
   objects (onSet sample_friendlyFolderName [overwriting_record] one_folder_model) ! 0 =
     \<lparr>key = ''k1'', deleted_at = New_Date ''d9'',
      item = DeletedBookmark ''B'' ''http://x'' None\<rparr>"
proof -
  have c: "entry_cache one_folder_model (e_key overwriting_record) = Some 0"
    by (simp add: one_folder_model_def overwriting_record_def)
  from onSet_cached_in_place [OF run_one_folder c] run_one_folder c show ?thesis
    by (simp add: one_folder_model_def overwriting_record_def)
qed

subsection \<open>C9: deleting absent keys\<close>

text \<open>
  C9: a delete notification whose keys are neither in the cache nor among the keys of
  \<open>entries\<close> leaves the model as it was.
\<close>

theorem onDelete_absent_keys:
  assumes "\<forall>k \<in> set keys. k \<notin> dom (entry_cache m) \<and> k \<notin> entry_keys m"
  shows "onDelete keys m = m"
proof -
  have c: "fold (\<lambda>k c. c(k := None)) keys (entry_cache m) = entry_cache m"
    using assms by (auto simp: fold_remove fun_eq_iff dom_def)
  have e: "filter (\<lambda>a. key (objects m ! a) \<notin> set keys) (entries m) = entries m"
    using assms by (auto simp: entry_keys_def entries_view_def filter_id_conv)
  show ?thesis
    by (simp add: onDelete_def c e)
qed

text \<open>Two absent keys, on a model that holds one entry.\<close>

theorem onDelete_absent_keys_witness:
  "''zz'' \<notin> dom (entry_cache one_folder_model) \<and> ''zz'' \<notin> entry_keys one_folder_model \<and>
   ''k0'' \<notin> dom (entry_cache one_folder_model) \<and> ''k0'' \<notin> entry_keys one_folder_model \<and>
   onDelete [''zz'', ''k0''] one_folder_model = one_folder_model"
proof -
  have h: "\<forall>k \<in> set [''zz'', ''k0'']. k \<notin> dom (entry_cache one_folder_model) \<and>
       k \<notin> entry_keys one_folder_model"
    by (simp add: one_folder_model_def entry_keys_def entries_view_def)
  from onDelete_absent_keys [OF h] h show ?thesis by simp
qed

subsection \<open>C10: the survivors of a delete notification\<close>

text \<open>
  C10: after a delete notification, \<open>entries\<close> reads as the former \<open>entries\<close> without
  the Deletions whose key is in the batch: the survivors in their former relative
  order, and, no object having been touched, with their former fields.
\<close>

theorem onDelete_keeps_survivors:
  "entries_view (onDelete keys m) = filter (\<lambda>d. key d \<notin> set keys) (entries_view m) \<and>
   objects (onDelete keys m) = objects m"
  by (simp add: onDelete_def entries_view_def filter_map comp_def)

end
